theory Spec2Isabelle
  imports Main
begin

section \<open>Data model of the presence tracker (main.py)\<close>

text \<open>
  Time is counted in whole seconds. \<open>datetime.datetime.utcnow()\<close> is an input of every
  handler run: it is the time stamp of the step that runs the handler.
\<close>

type_synonym time = nat

text \<open>
  \<open>user.status\<close> and \<open>event.status\<close>: the code only tests for \<open>UserStatusOnline\<close> and
  \<open>UserStatusOffline\<close> (whose \<open>was_online\<close> may be missing); every other status object
  (recently, last week, empty, None) takes the remaining branch.
\<close>

datatype user_status = UserStatusOnline | UserStatusOffline "time option" | UserStatusOther

text \<open>A raw event is an \<open>UpdateUserStatus\<close> with its \<open>user_id\<close> and \<open>status\<close>, or any other update.\<close>

datatype raw_event = UpdateUserStatus int user_status | OtherUpdate

text \<open>
  What a call on a websocket does: it returns, or it raises. A send that fails, on a
  closed or broken channel, raises an instance of \<open>Exception\<close>, which
  \<open>except Exception\<close> catches. What is only a \<open>BaseException\<close> (the cancellation of
  the calling task, the exit of the interpreter) passes through it. In the functions
  below \<open>send ws\<close> is what \<open>ws.send_json(state)\<close> does, and \<open>net t ws\<close> what it does
  at time \<open>t\<close>.
\<close>

datatype raised = Exception | BaseException

datatype outcome = Ok | Raises raised

text \<open>The global dict \<open>state\<close>; its four values are Python strings.\<close>

record snapshot =
  name :: string
  status :: string
  last_seen :: string
  duration :: string

text \<open>
  An asyncio task made from \<open>delayed_offline()\<close>: the time at which its sleep ends, and
  whether it is still sleeping, was cancelled while sleeping, or has run.
\<close>

datatype task_state = Pending | Cancelled | Finished

record task =
  due :: time
  tstate :: task_state

text \<open>
  The globals of the module. \<open>clients\<close> is a Python set: the list holds its members
  without duplicates, in the order in which \<open>list(clients)\<close> yields them. \<open>offline_task\<close>
  refers to a task by its index in \<open>tasks\<close>, the tasks created so far. \<open>broadcasts\<close> and
  \<open>sends\<close> are not program state: they record every call of \<open>broadcast()\<close> with the
  snapshot it carried, and every call of \<open>ws.send_json(state)\<close> with its outcome.
\<close>

record 'o world =
  clients :: "'o list"
  state :: snapshot
  online_since :: "time option"
  offline_task :: "nat option"
  tasks :: "task list"
  broadcasts :: "(time \<times> snapshot) list"
  sends :: "(time \<times> 'o \<times> snapshot \<times> outcome) list"

definition OFFLINE_DELAY :: nat where
  "OFFLINE_DELAY = 40"

text \<open>The module's globals as first assigned; \<open>TARGET_NAME\<close> comes from the environment.\<close>

definition init :: "string \<Rightarrow> 'o world" where
  "init TARGET_NAME =
     \<lparr>clients = [],
      state = \<lparr>name = TARGET_NAME, status = ''CONNECTING'', last_seen = ''--'', duration = ''''\<rparr>,
      online_since = None, offline_task = None, tasks = [],
      broadcasts = [], sends = []\<rparr>"

section \<open>broadcast\<close>

text \<open>
  The loop over \<open>list(clients)\<close>: a send that raises an \<open>Exception\<close> discards the
  websocket and the loop goes on; anything else that is raised leaves the loop and the
  function. The result is the world as the call leaves it and what it raised, if anything.
\<close>

fun broadcast_loop ::
  "('o \<Rightarrow> outcome) \<Rightarrow> time \<Rightarrow> 'o list \<Rightarrow> 'o world \<Rightarrow> 'o world \<times> raised option" where
  "broadcast_loop send now [] w = (w, None)"
| "broadcast_loop send now (ws # rest) w =
     (let w1 = w\<lparr>sends := sends w @ [(now, ws, state w, send ws)]\<rparr> in
      case send ws of
        Ok \<Rightarrow> broadcast_loop send now rest w1
      | Raises Exception \<Rightarrow>
          broadcast_loop send now rest (w1\<lparr>clients := removeAll ws (clients w1)\<rparr>)
      | Raises BaseException \<Rightarrow> (w1, Some BaseException))"

definition broadcast :: "('o \<Rightarrow> outcome) \<Rightarrow> time \<Rightarrow> 'o world \<Rightarrow> 'o world \<times> raised option" where
  "broadcast send now w =
     broadcast_loop send now (clients w) (w\<lparr>broadcasts := broadcasts w @ [(now, state w)]\<rparr>)"

section \<open>delayed_offline and the tasks\<close>

text \<open>
  The body of \<open>delayed_offline\<close> after its sleep; \<open>now\<close> is the time at which the sleep
  ended and \<open>strftime\<close> stands for \<open>strftime("%Y-%m-%d %H:%M:%S")\<close>.
\<close>

definition delayed_offline ::
  "(time \<Rightarrow> 'o \<Rightarrow> outcome) \<Rightarrow> (time \<Rightarrow> string) \<Rightarrow> time \<Rightarrow> 'o world \<Rightarrow> 'o world \<times> raised option" where
  "delayed_offline net strftime now w =
     (if online_since w = None then
        broadcast (net now) now
          (w\<lparr>state := (state w)\<lparr>status := ''OFFLINE'', last_seen := strftime now, duration := ''''\<rparr>\<rparr>)
      else (w, None))"

text \<open>\<open>task.cancel()\<close>: a sleeping task is cancelled, a task that is done is left as it is.\<close>

definition cancel :: "nat \<Rightarrow> task list \<Rightarrow> task list" where
  "cancel i ts =
     (if i < length ts \<and> tstate (ts ! i) = Pending
      then ts[i := (ts ! i)\<lparr>tstate := Cancelled\<rparr>] else ts)"

text \<open>\<open>asyncio.create_task(delayed_offline())\<close> at time \<open>now\<close>: the new task and its index.\<close>

definition create_task :: "time \<Rightarrow> task list \<Rightarrow> nat \<times> task list" where
  "create_task now ts = (length ts, ts @ [\<lparr>due = now + OFFLINE_DELAY, tstate = Pending\<rparr>])"

section \<open>handler\<close>

fun handler ::
  "(time \<Rightarrow> 'o \<Rightarrow> outcome) \<Rightarrow> int \<Rightarrow> raw_event \<Rightarrow> time \<Rightarrow> 'o world \<Rightarrow> 'o world \<times> raised option" where
  "handler net user_id OtherUpdate now w = (w, None)"
| "handler net user_id (UpdateUserStatus uid st) now w =
     (if uid \<noteq> user_id then (w, None)
      else case st of
        UserStatusOnline \<Rightarrow>
          (let w1 = (case offline_task w of
                       Some i \<Rightarrow> w\<lparr>tasks := cancel i (tasks w), offline_task := None\<rparr>
                     | None \<Rightarrow> w)
           in if status (state w1) \<noteq> ''ONLINE'' then
                broadcast (net now) now
                  (w1\<lparr>state := (state w1)\<lparr>status := ''ONLINE'', duration := ''''\<rparr>,
                      online_since := Some now\<rparr>)
              else (w1, None))
      | UserStatusOffline was_online \<Rightarrow>
          (let w1 = w\<lparr>online_since := None\<rparr>;
               w2 = (case offline_task w1 of
                       Some i \<Rightarrow> w1\<lparr>tasks := cancel i (tasks w1)\<rparr>
                     | None \<Rightarrow> w1);
               (i, ts) = create_task now (tasks w2)
           in (w2\<lparr>tasks := ts, offline_task := Some i\<rparr>, None))
      | UserStatusOther \<Rightarrow> (w, None))"

section \<open>The initial status sync of telegram_worker\<close>

text \<open>
  Lines 87 to 100 of \<open>telegram_worker\<close>, once the user is resolved: \<open>user_status\<close> is
  \<open>user.status\<close> and \<open>now\<close> the time read by \<open>utcnow()\<close>. The handler is registered only
  if this part returns.
\<close>

definition telegram_worker ::
  "(time \<Rightarrow> 'o \<Rightarrow> outcome) \<Rightarrow> (time \<Rightarrow> string) \<Rightarrow> user_status \<Rightarrow> time \<Rightarrow> 'o world
     \<Rightarrow> 'o world \<times> raised option" where
  "telegram_worker net strftime user_status now w =
     broadcast (net now) now
       (case user_status of
          UserStatusOnline \<Rightarrow>
            w\<lparr>state := (state w)\<lparr>status := ''ONLINE'', duration := ''''\<rparr>,
              online_since := Some now\<rparr>
        | UserStatusOffline (Some was_online) \<Rightarrow>
            w\<lparr>state := (state w)\<lparr>status := ''OFFLINE'', last_seen := strftime was_online\<rparr>\<rparr>
        | UserStatusOffline None \<Rightarrow>
            w\<lparr>state := (state w)\<lparr>status := ''OFFLINE'', last_seen := ''--''\<rparr>\<rparr>
        | UserStatusOther \<Rightarrow>
            w\<lparr>state := (state w)\<lparr>status := ''OFFLINE'', last_seen := ''--''\<rparr>\<rparr>)"

section \<open>websocket_endpoint\<close>

text \<open>
  The endpoint up to its receive loop: \<open>accept\<close> is what \<open>ws.accept()\<close> does and \<open>send\<close>
  what \<open>ws.send_json(state)\<close> does; neither call is inside a \<open>try\<close>. The result
  \<open>None\<close> means that the endpoint has reached its receive loop.
\<close>

definition websocket_endpoint ::
  "('o \<Rightarrow> outcome) \<Rightarrow> outcome \<Rightarrow> time \<Rightarrow> 'o \<Rightarrow> 'o world \<Rightarrow> 'o world \<times> raised option" where
  "websocket_endpoint send accept now ws w =
     (case accept of
        Raises e \<Rightarrow> (w, Some e)
      | Ok \<Rightarrow>
          (let w1 = w\<lparr>clients := List.insert ws (clients w)\<rparr>;
               w2 = w1\<lparr>sends := sends w1 @ [(now, ws, state w1, send ws)]\<rparr>
           in case send ws of Ok \<Rightarrow> (w2, None) | Raises e \<Rightarrow> (w2, Some e)))"

text \<open>The receive loop ends with \<open>WebSocketDisconnect\<close>: \<open>clients.discard(ws)\<close>.\<close>

definition websocket_disconnect :: "'o \<Rightarrow> 'o world \<Rightarrow> 'o world" where
  "websocket_disconnect ws w = w\<lparr>clients := removeAll ws (clients w)\<rparr>"

section \<open>The event loop\<close>

text \<open>
  Handler runs, endpoint runs and task bodies are taken one at a time, each running to
  its end before the next starts. The sleep of a task created at \<open>now\<close> ends at
  \<open>now + OFFLINE_DELAY\<close>. When the clock reaches \<open>t\<close>, every task that is still
  sleeping and whose sleep has ended by then is done, and their bodies run in the
  order of creation, each at the time its sleep ended; so a task whose sleep ends at
  \<open>t\<close> runs before an input that arrives at \<open>t\<close>. What a body raises ends that task
  only.
\<close>

definition is_due :: "time \<Rightarrow> task \<Rightarrow> bool" where
  "is_due t k = (tstate k = Pending \<and> due k \<le> t)"

definition advance ::
  "(time \<Rightarrow> 'o \<Rightarrow> outcome) \<Rightarrow> (time \<Rightarrow> string) \<Rightarrow> time \<Rightarrow> 'o world \<Rightarrow> 'o world" where
  "advance net strftime t w =
     fold (\<lambda>k v. fst (delayed_offline net strftime (due k) v))
       (filter (is_due t) (tasks w))
       (w\<lparr>tasks := map (\<lambda>k. if is_due t k then k\<lparr>tstate := Finished\<rparr> else k) (tasks w)\<rparr>)"

text \<open>
  What happens at a time \<open>t\<close>: a websocket connects (with what its \<open>accept\<close> does), a
  websocket disconnects, or the Telegram client delivers a raw event. \<open>registered\<close> is
  \<open>Some user_id\<close> once \<open>telegram_worker\<close> has registered the handler for the resolved
  \<open>user_id\<close>; before that a raw event reaches no handler. What the handler or the
  endpoint raises does not stop the loop.
\<close>

datatype 'o input = Connect 'o outcome | Disconnect 'o | Raw raw_event

definition step ::
  "(time \<Rightarrow> 'o \<Rightarrow> outcome) \<Rightarrow> (time \<Rightarrow> string) \<Rightarrow> int option \<Rightarrow> time \<times> 'o input \<Rightarrow> 'o world
     \<Rightarrow> 'o world" where
  "step net strftime registered ti w =
     (let t = fst ti; w1 = advance net strftime t w in
      case snd ti of
        Connect ws accept \<Rightarrow> fst (websocket_endpoint (net t) accept t ws w1)
      | Disconnect ws \<Rightarrow> websocket_disconnect ws w1
      | Raw event \<Rightarrow>
          (case registered of
             None \<Rightarrow> w1
           | Some user_id \<Rightarrow> fst (handler net user_id event t w1)))"

definition run ::
  "(time \<Rightarrow> 'o \<Rightarrow> outcome) \<Rightarrow> (time \<Rightarrow> string) \<Rightarrow> int option \<Rightarrow> (time \<times> 'o input) list
     \<Rightarrow> 'o world \<Rightarrow> 'o world" where
  "run net strftime registered tis w = fold (step net strftime registered) tis w"

text \<open>
  The process from its start: the inputs \<open>pre\<close> arrive while the worker connects and
  resolves the user, at \<open>t0\<close> the worker syncs the initial status \<open>user_status\<close> of the
  user \<open>user_id\<close>, and the inputs \<open>post\<close> arrive afterwards.
\<close>

definition system ::
  "(time \<Rightarrow> 'o \<Rightarrow> outcome) \<Rightarrow> (time \<Rightarrow> string) \<Rightarrow> string \<Rightarrow> (time \<times> 'o input) list
     \<Rightarrow> time \<Rightarrow> int \<Rightarrow> user_status \<Rightarrow> (time \<times> 'o input) list \<Rightarrow> 'o world" where
  "system net strftime TARGET_NAME pre t0 user_id user_status post =
     (let w0 = run net strftime None pre (init TARGET_NAME);
          (w1, r) = telegram_worker net strftime user_status t0 w0
      in run net strftime (if r = None then Some user_id else None) post w1)"

section \<open>Notions used in the statements\<close>

text \<open>The tasks that are still sleeping, by index: the live debounce handles.\<close>

definition pending :: "task list \<Rightarrow> nat list" where
  "pending ts = filter (\<lambda>i. tstate (ts ! i) = Pending) [0..<length ts]"

text \<open>Every task that is still sleeping is the one \<open>offline_task\<close> refers to.\<close>

definition handle_inv :: "'o world \<Rightarrow> bool" where
  "handle_inv w = (set (pending (tasks w)) \<subseteq> set_option (offline_task w))"

text \<open>
  An input that runs one of the two branches of the handler: a status update of the
  tracked user to online or to offline.
\<close>

fun presence_event :: "int \<Rightarrow> 'o input \<Rightarrow> bool" where
  "presence_event user_id (Raw (UpdateUserStatus uid UserStatusOnline)) = (uid = user_id)"
| "presence_event user_id (Raw (UpdateUserStatus uid (UserStatusOffline was_online))) = (uid = user_id)"
| "presence_event user_id inp = False"

text \<open>The tasks after the cancel that both branches of the handler start with.\<close>

definition cancelled :: "'o world \<Rightarrow> task list" where
  "cancelled w = (case offline_task w of Some i \<Rightarrow> cancel i (tasks w) | None \<Rightarrow> tasks w)"

text \<open>The world without its observers and the record of the sends.\<close>

definition core ::
  "'o world \<Rightarrow> snapshot \<times> time option \<times> nat option \<times> task list \<times> (time \<times> snapshot) list" where
  "core w = (state w, online_since w, offline_task w, tasks w, broadcasts w)"

text \<open>The status has been decided: the snapshot says ONLINE or OFFLINE.\<close>

definition decided :: "'o world \<Rightarrow> bool" where
  "decided w = (status (state w) = ''ONLINE'' \<or> status (state w) = ''OFFLINE'')"

text \<open>
  A rendering of times within the first day of the epoch, as \<open>strftime\<close> gives it there;
  the examples use it.
\<close>

definition two_digits :: "nat \<Rightarrow> string" where
  "two_digits n = [''0123456789'' ! (n div 10 mod 10), ''0123456789'' ! (n mod 10)]"

definition clock :: "time \<Rightarrow> string" where
  "clock t = ''1970-01-01 '' @ two_digits (t div 3600 mod 24) @ '':'' @
             two_digits (t div 60 mod 60) @ '':'' @ two_digits (t mod 60)"

section \<open>Auxiliary facts\<close>

subsection \<open>What broadcast leaves alone\<close>

lemma broadcast_loop_frame:
  "state (fst (broadcast_loop send now cs w)) = state w \<and>
   online_since (fst (broadcast_loop send now cs w)) = online_since w \<and>
   offline_task (fst (broadcast_loop send now cs w)) = offline_task w \<and>
   tasks (fst (broadcast_loop send now cs w)) = tasks w \<and>
   broadcasts (fst (broadcast_loop send now cs w)) = broadcasts w"
proof (induction cs arbitrary: w)
  case Nil
  show ?case by simp
next
  case (Cons ws rest)
  show ?case
  proof (cases "send ws")
    case Ok
    then show ?thesis using Cons.IH by (simp add: Let_def)
  next
    case (Raises e)
    then show ?thesis using Cons.IH by (cases e) (simp_all add: Let_def)
  qed
qed

lemma broadcast_frame:
  "state (fst (broadcast send now w)) = state w"
  "online_since (fst (broadcast send now w)) = online_since w"
  "offline_task (fst (broadcast send now w)) = offline_task w"
  "tasks (fst (broadcast send now w)) = tasks w"
  "broadcasts (fst (broadcast send now w)) = broadcasts w @ [(now, state w)]"
  by (simp_all add: broadcast_def broadcast_loop_frame)

subsection \<open>Task bodies\<close>

lemma delayed_offline_frame:
  "online_since (fst (delayed_offline net strftime now w)) = online_since w"
  "offline_task (fst (delayed_offline net strftime now w)) = offline_task w"
  "tasks (fst (delayed_offline net strftime now w)) = tasks w"
  by (simp_all add: delayed_offline_def broadcast_frame)

lemma fold_delayed_offline_frame:
  "online_since (fold (\<lambda>k v. fst (delayed_offline net strftime (due k) v)) ks w) = online_since w \<and>
   offline_task (fold (\<lambda>k v. fst (delayed_offline net strftime (due k) v)) ks w) = offline_task w \<and>
   tasks (fold (\<lambda>k v. fst (delayed_offline net strftime (due k) v)) ks w) = tasks w"
  by (induction ks arbitrary: w) (simp_all add: delayed_offline_frame)

lemma advance_frame:
  "online_since (advance net strftime t w) = online_since w"
  "offline_task (advance net strftime t w) = offline_task w"
  "tasks (advance net strftime t w)
     = map (\<lambda>k. if is_due t k then k\<lparr>tstate := Finished\<rparr> else k) (tasks w)"
  by (simp_all add: advance_def fold_delayed_offline_frame)

lemma advance_idle:
  assumes "\<forall>k\<in>set (tasks w). \<not> is_due t k"
  shows "advance net strftime t w = w"
proof -
  have "filter (is_due t) (tasks w) = []"
    using assms by (simp add: filter_empty_conv)
  moreover have "map (\<lambda>k. if is_due t k then k\<lparr>tstate := Finished\<rparr> else k) (tasks w) = tasks w"
    using assms by (simp add: map_idI)
  ultimately show ?thesis by (simp add: advance_def)
qed

subsection \<open>Pending tasks\<close>

lemma set_pending: "set (pending ts) = {i. i < length ts \<and> tstate (ts ! i) = Pending}"
  by (auto simp: pending_def)

lemma distinct_pending: "distinct (pending ts)"
  by (simp add: pending_def)

lemma pending_empty_conv: "pending ts = [] \<longleftrightarrow> (\<forall>k\<in>set ts. tstate k \<noteq> Pending)"
proof -
  have "pending ts = [] \<longleftrightarrow> set (pending ts) = {}" by simp
  also have "\<dots> \<longleftrightarrow> (\<forall>i<length ts. tstate (ts ! i) \<noteq> Pending)"
    by (auto simp: set_pending)
  also have "\<dots> \<longleftrightarrow> (\<forall>k\<in>set ts. tstate k \<noteq> Pending)"
    by (simp add: all_set_conv_all_nth)
  finally show ?thesis .
qed

lemma cancel_length [simp]: "length (cancel i ts) = length ts"
  by (simp add: cancel_def)

lemma cancel_nth:
  "j < length ts \<Longrightarrow>
   tstate (cancel i ts ! j) = (if j = i \<and> tstate (ts ! i) = Pending then Cancelled else tstate (ts ! j))"
  by (simp add: cancel_def nth_list_update)

lemma cancelled_none_pending:
  assumes "handle_inv w"
  shows "\<forall>k\<in>set (cancelled w). tstate k \<noteq> Pending"
proof (cases "offline_task w")
  case None
  then have "pending (tasks w) = []"
    using assms by (simp add: handle_inv_def)
  then show ?thesis
    using None by (simp add: cancelled_def pending_empty_conv)
next
  case (Some i)
  have "tstate (cancel i (tasks w) ! j) \<noteq> Pending" if "j < length (tasks w)" for j
  proof (cases "tstate (tasks w ! j) = Pending")
    case True
    then have "j \<in> set (pending (tasks w))"
      using that by (simp add: set_pending)
    then have "j = i"
      using assms Some by (auto simp: handle_inv_def)
    then show ?thesis
      using True that by (simp add: cancel_nth)
  next
    case False
    then show ?thesis
      using that by (simp add: cancel_nth)
  qed
  then show ?thesis
    using Some by (simp add: cancelled_def all_set_conv_all_nth)
qed

lemma pending_append_new:
  assumes "\<forall>k\<in>set ts. tstate k \<noteq> Pending"
  shows "pending (ts @ [\<lparr>due = d, tstate = Pending\<rparr>]) = [length ts]"
proof -
  have "filter (\<lambda>i. tstate ((ts @ [\<lparr>due = d, tstate = Pending\<rparr>]) ! i) = Pending) [0..<length ts] = []"
    using assms by (simp add: filter_empty_conv nth_append)
  then show ?thesis
    by (simp add: pending_def)
qed

subsection \<open>The handler on the two presence events\<close>

lemma handler_online:
  "handler net user_id (UpdateUserStatus user_id UserStatusOnline) now w =
     (if status (state w) \<noteq> ''ONLINE'' then
        broadcast (net now) now
          (w\<lparr>tasks := cancelled w, offline_task := None,
             state := (state w)\<lparr>status := ''ONLINE'', duration := ''''\<rparr>,
             online_since := Some now\<rparr>)
      else (w\<lparr>tasks := cancelled w, offline_task := None\<rparr>, None))"
  by (cases w) (simp add: cancelled_def Let_def split: option.split)

lemma handler_offline:
  "handler net user_id (UpdateUserStatus user_id (UserStatusOffline was_online)) now w =
     (w\<lparr>online_since := None,
        tasks := cancelled w @ [\<lparr>due = now + OFFLINE_DELAY, tstate = Pending\<rparr>],
        offline_task := Some (length (tasks w))\<rparr>, None)"
  by (cases w) (simp add: cancelled_def create_task_def Let_def split: option.split)

subsection \<open>Inputs that run neither branch of the handler\<close>

lemma handler_quiet:
  "\<not> presence_event user_id (Raw event) \<Longrightarrow> handler net user_id event now w = (w, None)"
proof (cases event)
  case (UpdateUserStatus uid st)
  assume "\<not> presence_event user_id (Raw event)"
  then show ?thesis
    using UpdateUserStatus by (cases st) simp_all
next
  case OtherUpdate
  then show ?thesis by simp
qed

declare handler.simps [simp del]

lemma websocket_endpoint_core:
  "core (fst (websocket_endpoint send accept now ws w)) = core w"
  by (simp add: websocket_endpoint_def core_def Let_def split: outcome.split)

lemma quiet_step:
  assumes "\<forall>uid. registered = Some uid \<longrightarrow> \<not> presence_event uid (snd ti)"
    and "\<forall>k\<in>set (tasks w). \<not> is_due (fst ti) k"
  shows "core (step net strftime registered ti w) = core w"
proof -
  have idle: "advance net strftime (fst ti) w = w"
    using assms(2) by (rule advance_idle)
  show ?thesis
  proof (cases "snd ti")
    case (Connect ws accept)
    then show ?thesis
      by (simp add: step_def Let_def idle websocket_endpoint_core)
  next
    case (Disconnect ws)
    then show ?thesis
      by (simp add: step_def Let_def idle websocket_disconnect_def core_def)
  next
    case (Raw event)
    show ?thesis
    proof (cases registered)
      case None
      then show ?thesis
        using Raw by (simp add: step_def Let_def idle)
    next
      case (Some uid)
      then have "\<not> presence_event uid (snd ti)"
        using assms(1) by simp
      then have "handler net uid event (fst ti) w = (w, None)"
        unfolding Raw by (rule handler_quiet)
      then show ?thesis
        using Raw Some by (simp add: step_def Let_def idle)
    qed
  qed
qed

lemma quiet_run:
  assumes "\<forall>ti\<in>set tis. (\<forall>uid. registered = Some uid \<longrightarrow> \<not> presence_event uid (snd ti)) \<and>
                          (\<forall>k\<in>set (tasks w). \<not> is_due (fst ti) k)"
  shows "core (run net strftime registered tis w) = core w"
  using assms
proof (induction tis arbitrary: w)
  case Nil
  show ?case by (simp add: run_def)
next
  case (Cons ti tis)
  let ?v = "step net strftime registered ti w"
  have v: "core ?v = core w"
    using Cons.prems by (intro quiet_step) simp_all
  then have "tasks ?v = tasks w"
    by (simp add: core_def)
  then have "core (run net strftime registered tis ?v) = core ?v"
    using Cons.prems by (intro Cons.IH) simp
  then show ?case
    using v by (simp add: run_def)
qed

lemma run_Cons: "run net strftime registered (ti # tis) w
                   = run net strftime registered tis (step net strftime registered ti w)"
  by (simp add: run_def)

lemma run_snoc: "run net strftime registered (tis @ [ti]) w
                   = step net strftime registered ti (run net strftime registered tis w)"
  by (simp add: run_def)

subsection \<open>The invariant of the task handle\<close>

lemma handle_inv_core: "core v = core w \<Longrightarrow> handle_inv v = handle_inv w"
  by (simp add: core_def handle_inv_def)

lemma advance_inv:
  assumes "handle_inv w"
  shows "handle_inv (advance net strftime t w)"
proof -
  have "set (pending (map (\<lambda>k. if is_due t k then k\<lparr>tstate := Finished\<rparr> else k) (tasks w)))
          \<subseteq> set (pending (tasks w))"
    by (auto simp: set_pending split: if_splits)
  then show ?thesis
    using assms by (auto simp: handle_inv_def advance_frame)
qed

lemma no_pending_idle:
  "pending (tasks w) = [] \<Longrightarrow> advance net strftime t w = w"
  by (rule advance_idle) (simp add: pending_empty_conv is_due_def)

subsection \<open>The two presence events as steps\<close>

lemma advance_not_due: "\<forall>k\<in>set (tasks (advance net strftime t w)). \<not> is_due t k"
  by (auto simp: advance_frame is_due_def)

lemma step_advance:
  "step net strftime registered (t, inp) (advance net strftime t w)
     = step net strftime registered (t, inp) w"
proof -
  have again: "advance net strftime t (advance net strftime t w) = advance net strftime t w"
    using advance_not_due by (rule advance_idle)
  show ?thesis
    unfolding step_def Let_def fst_conv snd_conv again by (rule refl)
qed

lemma online_step_status:
  "status (state (step net strftime (Some user_id)
                    (t, Raw (UpdateUserStatus user_id UserStatusOnline)) w)) = ''ONLINE''"
  by (simp add: step_def Let_def handler_online broadcast_frame)

lemma offline_step:
  assumes "handle_inv w"
  shows "state (step net strftime (Some user_id)
                  (t, Raw (UpdateUserStatus user_id (UserStatusOffline was_online))) w)
           = state (advance net strftime t w) \<and>
         broadcasts (step net strftime (Some user_id)
                  (t, Raw (UpdateUserStatus user_id (UserStatusOffline was_online))) w)
           = broadcasts (advance net strftime t w) \<and>
         online_since (step net strftime (Some user_id)
                  (t, Raw (UpdateUserStatus user_id (UserStatusOffline was_online))) w) = None \<and>
         tasks (step net strftime (Some user_id)
                  (t, Raw (UpdateUserStatus user_id (UserStatusOffline was_online))) w)
           = cancelled (advance net strftime t w) @ [\<lparr>due = t + OFFLINE_DELAY, tstate = Pending\<rparr>] \<and>
         (\<forall>k\<in>set (cancelled (advance net strftime t w)). tstate k \<noteq> Pending) \<and>
         handle_inv (step net strftime (Some user_id)
                  (t, Raw (UpdateUserStatus user_id (UserStatusOffline was_online))) w)"
proof -
  let ?w0 = "advance net strftime t w"
  let ?w1 = "step net strftime (Some user_id)
               (t, Raw (UpdateUserStatus user_id (UserStatusOffline was_online))) w"
  have w1: "?w1 = ?w0\<lparr>online_since := None,
                    tasks := cancelled ?w0 @ [\<lparr>due = t + OFFLINE_DELAY, tstate = Pending\<rparr>],
                    offline_task := Some (length (tasks ?w0))\<rparr>"
    by (simp add: step_def Let_def handler_offline)
  have "handle_inv ?w0"
    using assms by (rule advance_inv)
  then have np: "\<forall>k\<in>set (cancelled ?w0). tstate k \<noteq> Pending"
    by (rule cancelled_none_pending)
  have "length (cancelled ?w0) = length (tasks ?w0)"
    by (simp add: cancelled_def split: option.split)
  then have "handle_inv ?w1"
    using pending_append_new [OF np] by (simp add: handle_inv_def w1)
  then show ?thesis
    using np by (simp add: w1)
qed

lemma online_step:
  assumes "handle_inv w" and "\<forall>k\<in>set (tasks w). \<not> is_due t k"
  shows "broadcasts (step net strftime (Some user_id)
                       (t, Raw (UpdateUserStatus user_id UserStatusOnline)) w)
           = broadcasts w @
               (if status (state w) = ''ONLINE'' then []
                else [(t, (state w)\<lparr>status := ''ONLINE'', duration := ''''\<rparr>)]) \<and>
         pending (tasks (step net strftime (Some user_id)
                           (t, Raw (UpdateUserStatus user_id UserStatusOnline)) w)) = []"
proof -
  let ?w1 = "step net strftime (Some user_id) (t, Raw (UpdateUserStatus user_id UserStatusOnline)) w"
  have idle: "advance net strftime t w = w"
    using assms(2) by (rule advance_idle)
  have w1: "?w1 = fst (handler net user_id (UpdateUserStatus user_id UserStatusOnline) t w)"
    by (simp add: step_def Let_def idle)
  have "tasks ?w1 = cancelled w"
    by (simp add: w1 handler_online broadcast_frame)
  then have "pending (tasks ?w1) = []"
    using cancelled_none_pending [OF assms(1)] by (simp add: pending_empty_conv)
  then show ?thesis
    by (simp add: w1 handler_online broadcast_frame)
qed

lemma offline_then_quiet:
  assumes inv: "handle_inv w"
    and mid: "\<forall>ti\<in>set mid. fst ti < t1 + OFFLINE_DELAY \<and> \<not> presence_event user_id (snd ti)"
  shows "state (run net strftime (Some user_id)
                  ((t1, Raw (UpdateUserStatus user_id (UserStatusOffline was_online))) # mid) w)
           = state (advance net strftime t1 w) \<and>
         broadcasts (run net strftime (Some user_id)
                  ((t1, Raw (UpdateUserStatus user_id (UserStatusOffline was_online))) # mid) w)
           = broadcasts (advance net strftime t1 w) \<and>
         online_since (run net strftime (Some user_id)
                  ((t1, Raw (UpdateUserStatus user_id (UserStatusOffline was_online))) # mid) w)
           = None \<and>
         tasks (run net strftime (Some user_id)
                  ((t1, Raw (UpdateUserStatus user_id (UserStatusOffline was_online))) # mid) w)
           = cancelled (advance net strftime t1 w) @
               [\<lparr>due = t1 + OFFLINE_DELAY, tstate = Pending\<rparr>] \<and>
         (\<forall>k\<in>set (cancelled (advance net strftime t1 w)). tstate k \<noteq> Pending) \<and>
         handle_inv (run net strftime (Some user_id)
                  ((t1, Raw (UpdateUserStatus user_id (UserStatusOffline was_online))) # mid) w)"
proof -
  let ?off = "(t1, Raw (UpdateUserStatus user_id (UserStatusOffline was_online)))"
  let ?w1 = "step net strftime (Some user_id) ?off w"
  let ?w2 = "run net strftime (Some user_id) (?off # mid) w"
  note w1 = offline_step [OF inv, of net strftime user_id t1 was_online]
  have "\<forall>k\<in>set (tasks ?w1). \<not> is_due t k" if "t < t1 + OFFLINE_DELAY" for t
    using that w1 by (auto simp: is_due_def)
  then have "core ?w2 = core ?w1"
    unfolding run_Cons using mid by (intro quiet_run) simp
  then have "state ?w2 = state ?w1 \<and> broadcasts ?w2 = broadcasts ?w1 \<and>
    online_since ?w2 = online_since ?w1 \<and> tasks ?w2 = tasks ?w1 \<and> handle_inv ?w2 = handle_inv ?w1"
    by (simp add: core_def handle_inv_def)
  then show ?thesis
    using w1 by simp
qed

subsection \<open>The invariant along a run\<close>

lemma handle_inv_handler:
  assumes "handle_inv w"
  shows "handle_inv (fst (handler net user_id event now w))"
proof (cases event)
  case OtherUpdate
  then show ?thesis
    using assms by (simp add: handler.simps)
next
  case (UpdateUserStatus uid st)
  note np = cancelled_none_pending [OF assms]
  show ?thesis
  proof (cases "uid = user_id")
    case False
    then show ?thesis
      using assms UpdateUserStatus by (simp add: handler.simps)
  next
    case True
    show ?thesis
    proof (cases st)
      case UserStatusOnline
      have "pending (cancelled w) = []"
        using np by (simp add: pending_empty_conv)
      then show ?thesis
        using UpdateUserStatus True UserStatusOnline
        by (simp add: handler_online handle_inv_def broadcast_frame)
    next
      case (UserStatusOffline was_online)
      have "length (cancelled w) = length (tasks w)"
        by (simp add: cancelled_def split: option.split)
      then show ?thesis
        using UpdateUserStatus True UserStatusOffline pending_append_new [OF np]
        by (simp add: handler_offline handle_inv_def)
    next
      case UserStatusOther
      then show ?thesis
        using assms UpdateUserStatus by (simp add: handler.simps)
    qed
  qed
qed

lemma handle_inv_step:
  assumes "handle_inv w"
  shows "handle_inv (step net strftime registered ti w)"
proof -
  let ?w1 = "advance net strftime (fst ti) w"
  have w1: "handle_inv ?w1"
    using assms by (rule advance_inv)
  show ?thesis
  proof (cases "snd ti")
    case (Connect ws accept)
    then show ?thesis
      using w1 by (simp add: step_def Let_def handle_inv_core [OF websocket_endpoint_core])
  next
    case (Disconnect ws)
    then show ?thesis
      using w1 by (simp add: step_def Let_def websocket_disconnect_def handle_inv_def)
  next
    case (Raw event)
    then show ?thesis
      using w1 handle_inv_handler [OF w1]
      by (simp add: step_def Let_def split: option.split)
  qed
qed

lemma handle_inv_run:
  "handle_inv w \<Longrightarrow> handle_inv (run net strftime registered tis w)"
  by (induction tis arbitrary: w) (simp_all add: run_def handle_inv_step)

lemma handle_inv_system:
  "handle_inv (system net strftime TARGET_NAME pre t0 user_id user_status post)"
proof -
  let ?w0 = "run net strftime None pre (init TARGET_NAME)"
  have "handle_inv (init TARGET_NAME)"
    by (simp add: handle_inv_def init_def pending_def)
  then have "handle_inv ?w0"
    by (rule handle_inv_run)
  then have "handle_inv (fst (telegram_worker net strftime user_status t0 ?w0))"
    by (simp add: handle_inv_def telegram_worker_def broadcast_frame
             split: user_status.split option.split)
  then show ?thesis
    by (simp add: system_def Let_def case_prod_beta handle_inv_run)
qed

lemma handle_inv_at_most_one:
  assumes "handle_inv w"
  shows "length (pending (tasks w)) \<le> 1"
proof -
  have "length (pending (tasks w)) = card (set (pending (tasks w)))"
    using distinct_pending by (simp add: distinct_card)
  also have "\<dots> \<le> card (set_option (offline_task w))"
    using assms by (intro card_mono) (simp_all add: handle_inv_def)
  also have "\<dots> \<le> 1"
    by (cases "offline_task w") simp_all
  finally show ?thesis .
qed

subsection \<open>The status along a run\<close>

lemma decided_delayed_offline:
  "decided w \<Longrightarrow> decided (fst (delayed_offline net strftime now w))"
  by (simp add: decided_def delayed_offline_def broadcast_frame)

lemma decided_fold:
  "decided w \<Longrightarrow> decided (fold (\<lambda>k v. fst (delayed_offline net strftime (due k) v)) ks w)"
  by (induction ks arbitrary: w) (simp_all add: decided_delayed_offline)

lemma decided_advance: "decided w \<Longrightarrow> decided (advance net strftime t w)"
  unfolding advance_def by (rule decided_fold) (simp add: decided_def)

lemma decided_handler: "decided (fst (handler net user_id event now w))" if "decided w"
proof (cases "presence_event user_id (Raw event :: 'a input)")
  case False
  then have "handler net user_id event now w = (w, None)"
    by (rule handler_quiet)
  then show ?thesis
    using that by simp
next
  case True
  then obtain st where ev: "event = UpdateUserStatus user_id st"
    and st: "st = UserStatusOnline \<or> (\<exists>was_online. st = UserStatusOffline was_online)"
    by (cases "(user_id, Raw event :: 'a input)" rule: presence_event.cases) auto
  from st show ?thesis
  proof
    assume "st = UserStatusOnline"
    then show ?thesis
      using that ev by (simp add: handler_online decided_def broadcast_frame)
  next
    assume "\<exists>was_online. st = UserStatusOffline was_online"
    then show ?thesis
      using that ev by (auto simp: handler_offline decided_def)
  qed
qed

lemma decided_step: "decided w \<Longrightarrow> decided (step net strftime registered ti w)"
proof -
  assume "decided w"
  then have w1: "decided (advance net strftime (fst ti) w)"
    by (rule decided_advance)
  have "state (fst (websocket_endpoint send accept now ws v)) = state v" for send accept now ws
    and v :: "'a world"
    using websocket_endpoint_core [of send accept now ws v] by (simp add: core_def)
  then show ?thesis
    using w1 decided_handler [OF w1]
    by (simp add: step_def Let_def decided_def websocket_disconnect_def
             split: input.split option.split)
qed

lemma decided_run: "decided w \<Longrightarrow> decided (run net strftime registered tis w)"
  by (induction tis arbitrary: w) (simp_all add: run_def decided_step)

lemma decided_telegram_worker: "decided (fst (telegram_worker net strftime user_status now w))"
  by (simp add: telegram_worker_def decided_def broadcast_frame
           split: user_status.split option.split)

lemma unregistered_run:
  assumes "tasks w = []"
  shows "core (run net strftime None tis w) = core w"
  using assms by (intro quiet_run) simp

subsection \<open>What broadcast sends and whom it discards\<close>

lemma broadcast_loop_result:
  assumes "\<forall>ws\<in>set cs. send ws \<noteq> Raises BaseException"
  shows "snd (broadcast_loop send now cs w) = None \<and>
         clients (fst (broadcast_loop send now cs w))
           = filter (\<lambda>x. \<not> (x \<in> set cs \<and> send x = Raises Exception)) (clients w) \<and>
         sends (fst (broadcast_loop send now cs w))
           = sends w @ map (\<lambda>ws. (now, ws, state w, send ws)) cs"
  using assms
proof (induction cs arbitrary: w)
  case Nil
  show ?case by simp
next
  case (Cons ws rest)
  let ?w1 = "w\<lparr>sends := sends w @ [(now, ws, state w, send ws)]\<rparr>"
  from Cons.prems have rest: "\<forall>x\<in>set rest. send x \<noteq> Raises BaseException"
    and ws: "send ws \<noteq> Raises BaseException"
    by simp_all
  show ?case
  proof (cases "send ws")
    case Ok
    have "filter (\<lambda>x. \<not> (x \<in> set rest \<and> send x = Raises Exception)) (clients w)
            = filter (\<lambda>x. \<not> (x \<in> set (ws # rest) \<and> send x = Raises Exception)) (clients w)"
      using Ok by (intro filter_cong) auto
    then show ?thesis
      using Cons.IH [OF rest, of ?w1] Ok by (simp add: Let_def)
  next
    case (Raises e)
    then have e: "e = Exception"
      using ws by (cases e) simp_all
    let ?w2 = "?w1\<lparr>clients := removeAll ws (clients ?w1)\<rparr>"
    have "filter (\<lambda>x. \<not> (x \<in> set rest \<and> send x = Raises Exception)) (removeAll ws (clients w))
            = filter (\<lambda>x. \<not> (x \<in> set (ws # rest) \<and> send x = Raises Exception)) (clients w)"
      using Raises e by (auto simp: removeAll_filter_not_eq intro: filter_cong)
    then show ?thesis
      using Cons.IH [OF rest, of ?w2] Raises e by (simp add: Let_def)
  qed
qed

subsection \<open>Inputs inside the delay\<close>

lemma window_step:
  assumes inv: "handle_inv v"
    and calm: "\<forall>k\<in>set (tasks v). tstate k = Pending \<longrightarrow> T \<le> due k"
    and before: "fst ti < T" and after: "T \<le> fst ti + OFFLINE_DELAY"
  shows "handle_inv (step net strftime (Some user_id) ti v) \<and>
         (\<forall>k\<in>set (tasks (step net strftime (Some user_id) ti v)). tstate k = Pending \<longrightarrow> T \<le> due k) \<and>
         (state (step net strftime (Some user_id) ti v) = state v \<and>
          broadcasts (step net strftime (Some user_id) ti v) = broadcasts v \<or>
          status (state v) \<noteq> ''ONLINE'' \<and>
          state (step net strftime (Some user_id) ti v)
            = (state v)\<lparr>status := ''ONLINE'', duration := ''''\<rparr> \<and>
          broadcasts (step net strftime (Some user_id) ti v)
            = broadcasts v @ [(fst ti, (state v)\<lparr>status := ''ONLINE'', duration := ''''\<rparr>)])"
proof -
  let ?v' = "step net strftime (Some user_id) ti v"
  have not_due: "\<forall>k\<in>set (tasks v). \<not> is_due (fst ti) k"
    using calm before by (auto simp: is_due_def)
  then have idle: "advance net strftime (fst ti) v = v"
    by (rule advance_idle)
  note np = cancelled_none_pending [OF inv]
  show ?thesis
  proof (cases "presence_event user_id (snd ti)")
    case False
    then have "core ?v' = core v"
      using not_due by (intro quiet_step) simp_all
    then have "state ?v' = state v" "broadcasts ?v' = broadcasts v" "tasks ?v' = tasks v"
      "handle_inv ?v' = handle_inv v"
      by (simp_all add: core_def handle_inv_def)
    then show ?thesis
      using inv calm by simp
  next
    case True
    then obtain st where ev: "snd ti = Raw (UpdateUserStatus user_id st)"
      and st: "st = UserStatusOnline \<or> (\<exists>was_online. st = UserStatusOffline was_online)"
      by (cases "(user_id, snd ti)" rule: presence_event.cases) auto
    from st show ?thesis
    proof
      assume on: "st = UserStatusOnline"
      have v': "?v' = fst (handler net user_id (UpdateUserStatus user_id UserStatusOnline) (fst ti) v)"
        using ev on by (simp add: step_def Let_def idle)
      have ts: "tasks ?v' = cancelled v" and ot: "offline_task ?v' = None"
        by (simp_all add: v' handler_online broadcast_frame)
      have "pending (tasks ?v') = []"
        using np by (simp add: ts pending_empty_conv)
      then have "handle_inv ?v'"
        by (simp add: handle_inv_def)
      moreover have "\<forall>k\<in>set (tasks ?v'). tstate k = Pending \<longrightarrow> T \<le> due k"
        using np by (simp add: ts)
      moreover have "state ?v' = state v \<and> broadcasts ?v' = broadcasts v \<or>
          status (state v) \<noteq> ''ONLINE'' \<and>
          state ?v' = (state v)\<lparr>status := ''ONLINE'', duration := ''''\<rparr> \<and>
          broadcasts ?v' = broadcasts v @ [(fst ti, (state v)\<lparr>status := ''ONLINE'', duration := ''''\<rparr>)]"
        by (simp add: v' handler_online broadcast_frame)
      ultimately show ?thesis
        by blast
    next
      assume "\<exists>was_online. st = UserStatusOffline was_online"
      then obtain was_online where off: "st = UserStatusOffline was_online"
        by blast
      have v': "?v' = v\<lparr>online_since := None,
                         tasks := cancelled v @ [\<lparr>due = fst ti + OFFLINE_DELAY, tstate = Pending\<rparr>],
                         offline_task := Some (length (tasks v))\<rparr>"
        using ev off by (simp add: step_def Let_def idle handler_offline)
      have "length (cancelled v) = length (tasks v)"
        by (simp add: cancelled_def split: option.split)
      then have "handle_inv ?v'"
        using pending_append_new [OF np] by (simp add: handle_inv_def v')
      moreover have "\<forall>k\<in>set (tasks ?v'). tstate k = Pending \<longrightarrow> T \<le> due k"
        using np after by (auto simp: v')
      ultimately show ?thesis
        by (simp add: v')
    qed
  qed
qed

lemma window_run:
  assumes "handle_inv v"
    and "\<forall>k\<in>set (tasks v). tstate k = Pending \<longrightarrow> T \<le> due k"
    and "\<forall>ti\<in>set mid. fst ti < T \<and> T \<le> fst ti + OFFLINE_DELAY"
    and "state v = s0 \<and> broadcasts v = b0 \<or>
         status s0 \<noteq> ''ONLINE'' \<and> state v = s0\<lparr>status := ''ONLINE'', duration := ''''\<rparr> \<and>
         (\<exists>t<T. broadcasts v = b0 @ [(t, s0\<lparr>status := ''ONLINE'', duration := ''''\<rparr>)])"
  shows "handle_inv (run net strftime (Some user_id) mid v) \<and>
         (\<forall>k\<in>set (tasks (run net strftime (Some user_id) mid v)). tstate k = Pending \<longrightarrow> T \<le> due k) \<and>
         (state (run net strftime (Some user_id) mid v) = s0 \<and>
          broadcasts (run net strftime (Some user_id) mid v) = b0 \<or>
          status s0 \<noteq> ''ONLINE'' \<and>
          state (run net strftime (Some user_id) mid v)
            = s0\<lparr>status := ''ONLINE'', duration := ''''\<rparr> \<and>
          (\<exists>t<T. broadcasts (run net strftime (Some user_id) mid v)
                    = b0 @ [(t, s0\<lparr>status := ''ONLINE'', duration := ''''\<rparr>)]))"
  using assms
proof (induction mid arbitrary: v)
  case Nil
  then show ?case by (simp add: run_def)
next
  case (Cons ti mid)
  let ?v' = "step net strftime (Some user_id) ti v"
  from Cons.prems(3) have ti: "fst ti < T" "T \<le> fst ti + OFFLINE_DELAY"
    and mid: "\<forall>ti\<in>set mid. fst ti < T \<and> T \<le> fst ti + OFFLINE_DELAY"
    by simp_all
  note s = window_step [OF Cons.prems(1,2) ti, of net strftime user_id]
  have phase: "state ?v' = s0 \<and> broadcasts ?v' = b0 \<or>
         status s0 \<noteq> ''ONLINE'' \<and> state ?v' = s0\<lparr>status := ''ONLINE'', duration := ''''\<rparr> \<and>
         (\<exists>t<T. broadcasts ?v' = b0 @ [(t, s0\<lparr>status := ''ONLINE'', duration := ''''\<rparr>)])"
    using Cons.prems(4)
  proof
    assume a: "state v = s0 \<and> broadcasts v = b0"
    then show ?thesis
      using s ti(1) by auto
  next
    assume b: "status s0 \<noteq> ''ONLINE'' \<and> state v = s0\<lparr>status := ''ONLINE'', duration := ''''\<rparr> \<and>
         (\<exists>t<T. broadcasts v = b0 @ [(t, s0\<lparr>status := ''ONLINE'', duration := ''''\<rparr>)])"
    then have "status (state v) = ''ONLINE''"
      by simp
    then have "state ?v' = state v \<and> broadcasts ?v' = broadcasts v"
      using s by blast
    then show ?thesis
      using b by simp
  qed
  have "handle_inv ?v'" "\<forall>k\<in>set (tasks ?v'). tstate k = Pending \<longrightarrow> T \<le> due k"
    using s by blast+
  from Cons.IH [OF this mid phase] show ?case
    by (simp add: run_Cons)
qed

subsection \<open>Unfolding the model on concrete inputs\<close>

lemmas exec =
  system_def run_def step_def advance_def telegram_worker_def broadcast_def init_def
  handler.simps delayed_offline_def cancel_def create_task_def OFFLINE_DELAY_def
  websocket_endpoint_def websocket_disconnect_def is_due_def clock_def two_digits_def
  handle_inv_def pending_def cancelled_def Let_def

section \<open>The handler\<close>

text \<open>
  C9. A raw event that is not a user-status update, or that is one for another identity
  than the tracked one, leaves the whole world as it is (the snapshot, \<open>online_since\<close>,
  the task handle and the tasks, the observers) and nothing is broadcast or sent; the
  handler returns without raising.
\<close>

theorem handler_ignores_foreign_events:
  "handler net user_id OtherUpdate now w = (w, None) \<and>
   (uid \<noteq> user_id \<longrightarrow> handler net user_id (UpdateUserStatus uid st) now w = (w, None))"
  by (simp add: handler.simps)

theorem handler_ignores_foreign_events_witness:
  "(7::int) \<noteq> 1 \<and>
   handler (\<lambda>t ws. Ok) 1 (UpdateUserStatus 7 UserStatusOnline) 5 (init ''User'' :: nat world)
     = (init ''User'', None)"
  using handler_ignores_foreign_events [of "\<lambda>t ws. Ok" 1 5 "init ''User'' :: nat world" 7 UserStatusOnline]
  by simp

text \<open>
  C1, as amended. On a status update of the tracked user to online, when the status in
  the snapshot is not ONLINE, the handler sets the status to ONLINE and the duration to
  the empty string and leaves the name and \<open>last_seen\<close> as they are; it sets
  \<open>online_since\<close> to the current time, cancels the task that \<open>offline_task\<close> refers to
  and forgets it, and calls \<open>broadcast\<close> once, with the new snapshot.
\<close>

theorem online_event_when_not_online:
  assumes "status (state w) \<noteq> ''ONLINE''"
  shows "state (fst (handler net user_id (UpdateUserStatus user_id UserStatusOnline) now w))
           = (state w)\<lparr>status := ''ONLINE'', duration := ''''\<rparr> \<and>
         last_seen (state (fst (handler net user_id (UpdateUserStatus user_id UserStatusOnline) now w)))
           = last_seen (state w) \<and>
         online_since (fst (handler net user_id (UpdateUserStatus user_id UserStatusOnline) now w))
           = Some now \<and>
         offline_task (fst (handler net user_id (UpdateUserStatus user_id UserStatusOnline) now w))
           = None \<and>
         tasks (fst (handler net user_id (UpdateUserStatus user_id UserStatusOnline) now w))
           = cancelled w \<and>
         broadcasts (fst (handler net user_id (UpdateUserStatus user_id UserStatusOnline) now w))
           = broadcasts w @ [(now, (state w)\<lparr>status := ''ONLINE'', duration := ''''\<rparr>)]"
  using assms by (simp add: handler_online broadcast_frame)

text \<open>
  The user was last seen at 01:00:00, the worker starts at 02:00:00 and the user comes
  online at 02:01:40.
\<close>

theorem online_event_when_not_online_witness:
  "status (state (system (\<lambda>t ws. Ok) clock ''User'' [] 7200 1 (UserStatusOffline (Some 3600)) []
                    :: nat world)) \<noteq> ''ONLINE'' \<and>
   state (fst (handler (\<lambda>t ws. Ok) 1 (UpdateUserStatus 1 UserStatusOnline) 7300
                 (system (\<lambda>t ws. Ok) clock ''User'' [] 7200 1 (UserStatusOffline (Some 3600)) []
                    :: nat world)))
     = \<lparr>name = ''User'', status = ''ONLINE'', last_seen = ''1970-01-01 01:00:00'', duration = ''''\<rparr> \<and>
   broadcasts (fst (handler (\<lambda>t ws. Ok) 1 (UpdateUserStatus 1 UserStatusOnline) 7300
                 (system (\<lambda>t ws. Ok) clock ''User'' [] 7200 1 (UserStatusOffline (Some 3600)) []
                    :: nat world)))
     = [(7200, \<lparr>name = ''User'', status = ''OFFLINE'', last_seen = ''1970-01-01 01:00:00'',
                 duration = ''''\<rparr>),
        (7300, \<lparr>name = ''User'', status = ''ONLINE'', last_seen = ''1970-01-01 01:00:00'',
                 duration = ''''\<rparr>)]"
proof -
  let ?w = "system (\<lambda>t ws. Ok) clock ''User'' [] 7200 1 (UserStatusOffline (Some 3600)) [] :: nat world"
  have st: "state ?w = \<lparr>name = ''User'', status = ''OFFLINE'', last_seen = ''1970-01-01 01:00:00'',
                        duration = ''''\<rparr>"
    by (simp add: exec)
  have bs: "broadcasts ?w = [(7200, \<lparr>name = ''User'', status = ''OFFLINE'',
                                      last_seen = ''1970-01-01 01:00:00'', duration = ''''\<rparr>)]"
    by (simp add: exec)
  have h: "status (state ?w) \<noteq> ''ONLINE''"
    by (simp add: st)
  from online_event_when_not_online [OF h, of "\<lambda>t ws. Ok" 1 7300] show ?thesis
    using h by (simp add: st bs)
qed

text \<open>
  C1 as the specification states it fails: in the run above the snapshot still carries
  the time stamp 01:00:00 in \<open>last_seen\<close> after the online event, neither the sentinel
  nor an empty string.
\<close>

theorem online_event_keeps_last_seen:
  "status (state (system (\<lambda>t ws. Ok) clock ''User'' [] 7200 1 (UserStatusOffline (Some 3600)) []
                    :: nat world)) = ''OFFLINE'' \<and>
   last_seen (state (fst (handler (\<lambda>t ws. Ok) 1 (UpdateUserStatus 1 UserStatusOnline) 7300
                 (system (\<lambda>t ws. Ok) clock ''User'' [] 7200 1 (UserStatusOffline (Some 3600)) []
                    :: nat world))))
     = ''1970-01-01 01:00:00'' \<and>
   last_seen (state (fst (handler (\<lambda>t ws. Ok) 1 (UpdateUserStatus 1 UserStatusOnline) 7300
                 (system (\<lambda>t ws. Ok) clock ''User'' [] 7200 1 (UserStatusOffline (Some 3600)) []
                    :: nat world))))
     \<noteq> ''--''"
  by (simp add: exec)

text \<open>
  C4. On a status update of the tracked user to online, when the status in the snapshot
  is ONLINE already, the handler cancels the task that \<open>offline_task\<close> refers to and
  forgets it, and does nothing else: it returns without raising, and the snapshot,
  \<open>online_since\<close>, the observers and the records of broadcasts and sends are as before.
  So of two online events with no other presence event between them the second
  broadcasts nothing, whatever else arrives in between.
\<close>

theorem online_event_when_online:
  "(status (state w) = ''ONLINE'' \<longrightarrow>
      snd (handler net user_id (UpdateUserStatus user_id UserStatusOnline) now w) = None \<and>
      state (fst (handler net user_id (UpdateUserStatus user_id UserStatusOnline) now w)) = state w \<and>
      online_since (fst (handler net user_id (UpdateUserStatus user_id UserStatusOnline) now w))
        = online_since w \<and>
      broadcasts (fst (handler net user_id (UpdateUserStatus user_id UserStatusOnline) now w))
        = broadcasts w \<and>
      sends (fst (handler net user_id (UpdateUserStatus user_id UserStatusOnline) now w)) = sends w \<and>
      clients (fst (handler net user_id (UpdateUserStatus user_id UserStatusOnline) now w))
        = clients w \<and>
      offline_task (fst (handler net user_id (UpdateUserStatus user_id UserStatusOnline) now w))
        = None \<and>
      tasks (fst (handler net user_id (UpdateUserStatus user_id UserStatusOnline) now w))
        = cancelled w) \<and>
   (handle_inv w \<and> (\<forall>ti\<in>set mid. \<not> presence_event user_id (snd ti)) \<longrightarrow>
      broadcasts (run net strftime (Some user_id)
                    ((t1, Raw (UpdateUserStatus user_id UserStatusOnline)) # mid @
                     [(t2, Raw (UpdateUserStatus user_id UserStatusOnline))]) w)
        = broadcasts (step net strftime (Some user_id)
                        (t1, Raw (UpdateUserStatus user_id UserStatusOnline)) w))"
proof (rule conjI; rule impI)
  assume "status (state w) = ''ONLINE''"
  then show "snd (handler net user_id (UpdateUserStatus user_id UserStatusOnline) now w) = None \<and>
      state (fst (handler net user_id (UpdateUserStatus user_id UserStatusOnline) now w)) = state w \<and>
      online_since (fst (handler net user_id (UpdateUserStatus user_id UserStatusOnline) now w))
        = online_since w \<and>
      broadcasts (fst (handler net user_id (UpdateUserStatus user_id UserStatusOnline) now w))
        = broadcasts w \<and>
      sends (fst (handler net user_id (UpdateUserStatus user_id UserStatusOnline) now w)) = sends w \<and>
      clients (fst (handler net user_id (UpdateUserStatus user_id UserStatusOnline) now w))
        = clients w \<and>
      offline_task (fst (handler net user_id (UpdateUserStatus user_id UserStatusOnline) now w))
        = None \<and>
      tasks (fst (handler net user_id (UpdateUserStatus user_id UserStatusOnline) now w))
        = cancelled w"
    by (simp add: handler_online)
next
  let ?on1 = "(t1, Raw (UpdateUserStatus user_id UserStatusOnline))"
  let ?on2 = "(t2, Raw (UpdateUserStatus user_id UserStatusOnline))"
  let ?w0 = "advance net strftime t1 w"
  let ?w1 = "step net strftime (Some user_id) ?on1 w"
  let ?w2 = "run net strftime (Some user_id) mid ?w1"
  assume "handle_inv w \<and> (\<forall>ti\<in>set mid. \<not> presence_event user_id (snd ti))"
  then have inv: "handle_inv w" and mid: "\<forall>ti\<in>set mid. \<not> presence_event user_id (snd ti)"
    by simp_all
  have "handle_inv ?w0"
    using inv by (rule advance_inv)
  from online_step [OF this advance_not_due, of net strftime user_id]
  have np: "pending (tasks ?w1) = []"
    by (simp add: step_advance)
  then have calm: "\<forall>k\<in>set (tasks ?w1). \<not> is_due t k" for t
    by (simp add: pending_empty_conv is_due_def)
  then have "core ?w2 = core ?w1"
    using mid by (intro quiet_run) simp
  then have eq: "state ?w2 = state ?w1" "broadcasts ?w2 = broadcasts ?w1" "tasks ?w2 = tasks ?w1"
    "handle_inv ?w2 = handle_inv ?w1"
    by (simp_all add: core_def handle_inv_def)
  have "handle_inv ?w1"
    using np by (simp add: handle_inv_def)
  then have inv2: "handle_inv ?w2"
    by (simp add: eq)
  have calm2: "\<forall>k\<in>set (tasks ?w2). \<not> is_due t2 k"
    using calm by (simp add: eq)
  have "broadcasts (step net strftime (Some user_id) ?on2 ?w2) = broadcasts ?w2"
    using online_step [OF inv2 calm2, of net strftime user_id]
    by (simp add: eq online_step_status)
  moreover have "run net strftime (Some user_id) (?on1 # mid @ [?on2]) w
                   = step net strftime (Some user_id) ?on2 ?w2"
    by (simp add: run_def)
  ultimately show "broadcasts (run net strftime (Some user_id) (?on1 # mid @ [?on2]) w)
                     = broadcasts ?w1"
    by (simp add: eq)
qed

text \<open>
  The user is online at the start, goes offline at 00:00:05 and is online again at
  00:00:20 and at 00:00:30, with an observer connecting in between.
\<close>

theorem online_event_when_online_witness:
  "status (state (system (\<lambda>t ws. Ok) clock ''User'' [] 0 1 UserStatusOnline
                    [(5, Raw (UpdateUserStatus 1 (UserStatusOffline None)))] :: nat world)) = ''ONLINE'' \<and>
   handle_inv (system (\<lambda>t ws. Ok) clock ''User'' [] 0 1 UserStatusOnline
                 [(5, Raw (UpdateUserStatus 1 (UserStatusOffline None)))] :: nat world) \<and>
   \<not> presence_event 1 (Connect (8::nat) Ok) \<and>
   tasks (fst (handler (\<lambda>t ws. Ok) 1 (UpdateUserStatus 1 UserStatusOnline) 20
                 (system (\<lambda>t ws. Ok) clock ''User'' [] 0 1 UserStatusOnline
                    [(5, Raw (UpdateUserStatus 1 (UserStatusOffline None)))] :: nat world)))
     = [\<lparr>due = 45, tstate = Cancelled\<rparr>] \<and>
   broadcasts (fst (handler (\<lambda>t ws. Ok) 1 (UpdateUserStatus 1 UserStatusOnline) 20
                 (system (\<lambda>t ws. Ok) clock ''User'' [] 0 1 UserStatusOnline
                    [(5, Raw (UpdateUserStatus 1 (UserStatusOffline None)))] :: nat world)))
     = [(0, \<lparr>name = ''User'', status = ''ONLINE'', last_seen = ''--'', duration = ''''\<rparr>)] \<and>
   broadcasts (run (\<lambda>t ws. Ok) clock (Some 1)
                 [(20, Raw (UpdateUserStatus 1 UserStatusOnline)), (25, Connect 8 Ok),
                  (30, Raw (UpdateUserStatus 1 UserStatusOnline))]
                 (system (\<lambda>t ws. Ok) clock ''User'' [] 0 1 UserStatusOnline
                    [(5, Raw (UpdateUserStatus 1 (UserStatusOffline None)))] :: nat world))
     = [(0, \<lparr>name = ''User'', status = ''ONLINE'', last_seen = ''--'', duration = ''''\<rparr>)]"
proof -
  let ?w = "system (\<lambda>t ws. Ok) clock ''User'' [] 0 1 UserStatusOnline
              [(5, Raw (UpdateUserStatus 1 (UserStatusOffline None)))] :: nat world"
  have w: "?w = \<lparr>clients = [],
                 state = \<lparr>name = ''User'', status = ''ONLINE'', last_seen = ''--'', duration = ''''\<rparr>,
                 online_since = None, offline_task = Some 0,
                 tasks = [\<lparr>due = 45, tstate = Pending\<rparr>],
                 broadcasts = [(0, \<lparr>name = ''User'', status = ''ONLINE'', last_seen = ''--'',
                                     duration = ''''\<rparr>)],
                 sends = []\<rparr>"
    by (simp add: exec)
  have h1: "status (state ?w) = ''ONLINE''"
    by (simp add: w)
  have h2: "handle_inv ?w"
    by (simp add: w handle_inv_def pending_def)
  have h3: "\<forall>ti\<in>set [(25::nat, Connect (8::nat) Ok)]. \<not> presence_event 1 (snd ti)"
    by simp
  have "broadcasts (step (\<lambda>t ws. Ok) clock (Some 1)
                      (20, Raw (UpdateUserStatus 1 UserStatusOnline)) ?w) = broadcasts ?w"
    unfolding w by (simp add: exec)
  then show ?thesis
    using online_event_when_online [of ?w "\<lambda>t ws. Ok" 1 20 "[(25, Connect 8 Ok)]" clock 20 30]
      h1 h2 h3
    by (simp add: w cancelled_def cancel_def)
qed

section \<open>The debounce\<close>

text \<open>
  C2. Take a world in which no task but the one \<open>offline_task\<close> refers to is sleeping.
  An offline event of the tracked user arrives at \<open>t1\<close>, then any inputs, and then an
  online event of the tracked user at \<open>t2\<close>, all of them less than \<open>OFFLINE_DELAY\<close>
  after \<open>t1\<close>. Then, after what was broadcast up to \<open>t1\<close>, nothing is broadcast if the
  status was ONLINE at \<open>t1\<close>, and otherwise exactly one snapshot, with status ONLINE and
  within the delay. No task is left sleeping, so that no later time adds a broadcast.
\<close>

theorem flicker_suppressed:
  assumes inv: "handle_inv w"
    and mid: "\<forall>ti\<in>set mid. t1 \<le> fst ti \<and> fst ti < t1 + OFFLINE_DELAY"
    and t2: "t2 < t1 + OFFLINE_DELAY"
  shows "(\<exists>t<t1 + OFFLINE_DELAY.
            broadcasts (run net strftime (Some user_id)
                       ((t1, Raw (UpdateUserStatus user_id (UserStatusOffline was_online))) # mid @
                        [(t2, Raw (UpdateUserStatus user_id UserStatusOnline))]) w)
              = broadcasts (advance net strftime t1 w) @
                  (if status (state (advance net strftime t1 w)) = ''ONLINE'' then []
                   else [(t, (state (advance net strftime t1 w))
                                \<lparr>status := ''ONLINE'', duration := ''''\<rparr>)])) \<and>
         pending (tasks (run net strftime (Some user_id)
                       ((t1, Raw (UpdateUserStatus user_id (UserStatusOffline was_online))) # mid @
                        [(t2, Raw (UpdateUserStatus user_id UserStatusOnline))]) w)) = [] \<and>
         (\<forall>t. broadcasts (advance net strftime t (run net strftime (Some user_id)
                       ((t1, Raw (UpdateUserStatus user_id (UserStatusOffline was_online))) # mid @
                        [(t2, Raw (UpdateUserStatus user_id UserStatusOnline))]) w))
               = broadcasts (run net strftime (Some user_id)
                       ((t1, Raw (UpdateUserStatus user_id (UserStatusOffline was_online))) # mid @
                        [(t2, Raw (UpdateUserStatus user_id UserStatusOnline))]) w))"
proof -
  let ?T = "t1 + OFFLINE_DELAY"
  let ?w0 = "advance net strftime t1 w"
  let ?s1 = "(state ?w0)\<lparr>status := ''ONLINE'', duration := ''''\<rparr>"
  let ?off = "(t1, Raw (UpdateUserStatus user_id (UserStatusOffline was_online)))"
  let ?on = "(t2, Raw (UpdateUserStatus user_id UserStatusOnline))"
  let ?w1 = "step net strftime (Some user_id) ?off w"
  let ?w2 = "run net strftime (Some user_id) mid ?w1"
  let ?w3 = "run net strftime (Some user_id) (?off # mid @ [?on]) w"
  note w1 = offline_step [OF inv, of net strftime user_id t1 was_online]
  have inv1: "handle_inv ?w1"
    using w1 by blast
  have calm1: "\<forall>k\<in>set (tasks ?w1). tstate k = Pending \<longrightarrow> ?T \<le> due k"
    using w1 by auto
  have mid': "\<forall>ti\<in>set mid. fst ti < ?T \<and> ?T \<le> fst ti + OFFLINE_DELAY"
    using mid by simp
  have "state ?w1 = state ?w0 \<and> broadcasts ?w1 = broadcasts ?w0"
    using w1 by blast
  then have phase1: "state ?w1 = state ?w0 \<and> broadcasts ?w1 = broadcasts ?w0 \<or>
         status (state ?w0) \<noteq> ''ONLINE'' \<and> state ?w1 = ?s1 \<and>
         (\<exists>t<?T. broadcasts ?w1 = broadcasts ?w0 @ [(t, ?s1)])"
    by (rule disjI1)
  note w2 = window_run [OF inv1 calm1 mid' phase1, of net strftime user_id]
  have inv2: "handle_inv ?w2"
    using w2 by blast
  have calm2: "\<forall>k\<in>set (tasks ?w2). \<not> is_due t2 k"
    using w2 t2 by (auto simp: is_due_def)
  have w3: "?w3 = step net strftime (Some user_id) ?on ?w2"
    by (simp add: run_def)
  note on = online_step [OF inv2 calm2, of net strftime user_id, folded w3]
  have phase2: "state ?w2 = state ?w0 \<and> broadcasts ?w2 = broadcasts ?w0 \<or>
         status (state ?w0) \<noteq> ''ONLINE'' \<and> state ?w2 = ?s1 \<and>
         (\<exists>t<?T. broadcasts ?w2 = broadcasts ?w0 @ [(t, ?s1)])"
    using w2 by blast
  then have "\<exists>t<?T. broadcasts ?w3 = broadcasts ?w0 @
                 (if status (state ?w0) = ''ONLINE'' then [] else [(t, ?s1)])"
  proof
    assume "state ?w2 = state ?w0 \<and> broadcasts ?w2 = broadcasts ?w0"
    then have "broadcasts ?w3 = broadcasts ?w0 @
                 (if status (state ?w0) = ''ONLINE'' then [] else [(t2, ?s1)])"
      using on by simp
    then show ?thesis
      using t2 by blast
  next
    assume b: "status (state ?w0) \<noteq> ''ONLINE'' \<and> state ?w2 = ?s1 \<and>
         (\<exists>t<?T. broadcasts ?w2 = broadcasts ?w0 @ [(t, ?s1)])"
    then have "broadcasts ?w3 = broadcasts ?w2"
      using on by simp
    then show ?thesis
      using b by auto
  qed
  moreover have "broadcasts (advance net strftime t ?w3) = broadcasts ?w3" for t
    using on by (simp add: no_pending_idle)
  ultimately show ?thesis
    using on by blast
qed

text \<open>
  The user is offline at the start. An offline event at 00:00:05, an online event at
  00:00:10, another offline event at 00:00:12, an observer at 00:00:15 and an online
  event at 00:00:20: the one snapshot broadcast is the one of 00:00:10.
\<close>

theorem flicker_suppressed_witness:
  "handle_inv (system (\<lambda>t ws. Ok) clock ''User'' [] 0 1 (UserStatusOffline None) [] :: nat world) \<and>
   (5::nat) \<le> 10 \<and> (10::nat) < 5 + OFFLINE_DELAY \<and>
   (5::nat) \<le> 12 \<and> (12::nat) < 5 + OFFLINE_DELAY \<and>
   (5::nat) \<le> 15 \<and> (15::nat) < 5 + OFFLINE_DELAY \<and>
   (20::nat) < 5 + OFFLINE_DELAY \<and>
   broadcasts (run (\<lambda>t ws. Ok) clock (Some 1)
                 [(5, Raw (UpdateUserStatus 1 (UserStatusOffline None))),
                  (10, Raw (UpdateUserStatus 1 UserStatusOnline)),
                  (12, Raw (UpdateUserStatus 1 (UserStatusOffline None))),
                  (15, Connect 8 Ok),
                  (20, Raw (UpdateUserStatus 1 UserStatusOnline))]
                 (system (\<lambda>t ws. Ok) clock ''User'' [] 0 1 (UserStatusOffline None) [] :: nat world))
     = [(0, \<lparr>name = ''User'', status = ''OFFLINE'', last_seen = ''--'', duration = ''''\<rparr>),
        (10, \<lparr>name = ''User'', status = ''ONLINE'', last_seen = ''--'', duration = ''''\<rparr>)]"
proof -
  let ?w = "system (\<lambda>t ws. Ok) clock ''User'' [] 0 1 (UserStatusOffline None) [] :: nat world"
  let ?mid = "[(10, Raw (UpdateUserStatus 1 UserStatusOnline)),
               (12, Raw (UpdateUserStatus 1 (UserStatusOffline None))),
               (15::nat, Connect (8::nat) Ok)]"
  have w: "?w = \<lparr>clients = [],
                 state = \<lparr>name = ''User'', status = ''OFFLINE'', last_seen = ''--'', duration = ''''\<rparr>,
                 online_since = None, offline_task = None, tasks = [],
                 broadcasts = [(0, \<lparr>name = ''User'', status = ''OFFLINE'', last_seen = ''--'',
                                     duration = ''''\<rparr>)],
                 sends = []\<rparr>"
    by (simp add: exec)
  have h1: "handle_inv ?w"
    by (simp add: w handle_inv_def pending_def)
  have h2: "\<forall>ti\<in>set ?mid. 5 \<le> fst ti \<and> fst ti < 5 + OFFLINE_DELAY"
    by (simp add: OFFLINE_DELAY_def)
  have h3: "(20::nat) < 5 + OFFLINE_DELAY"
    by (simp add: OFFLINE_DELAY_def)
  have r: "broadcasts (run (\<lambda>t ws. Ok) clock (Some 1)
                 ((5, Raw (UpdateUserStatus 1 (UserStatusOffline None))) # ?mid @
                  [(20, Raw (UpdateUserStatus 1 UserStatusOnline))]) ?w)
     = [(0, \<lparr>name = ''User'', status = ''OFFLINE'', last_seen = ''--'', duration = ''''\<rparr>),
        (10, \<lparr>name = ''User'', status = ''ONLINE'', last_seen = ''--'', duration = ''''\<rparr>)]"
    unfolding w by (simp add: exec)
  from flicker_suppressed [OF h1 h2 h3, of "\<lambda>t ws. Ok" clock 1 None] show ?thesis
    using h1 h3 r by (simp add: OFFLINE_DELAY_def)
qed

text \<open>
  C3 as the specification states it fails. The user is online at the start, an offline
  event arrives at 00:00:05 and a second one at 00:00:35, and the first online event only
  at 00:01:00, 55 seconds after the first offline event: no snapshot with status OFFLINE
  is broadcast, then or later. The second offline event has cancelled the task of the
  first and started the delay again.
\<close>

theorem rearmed_delay_counterexample:
  "broadcasts (advance (\<lambda>t ws. Ok) clock 1000
     (system (\<lambda>t ws. Ok) clock ''User'' [] 0 1 UserStatusOnline
        [(5, Raw (UpdateUserStatus 1 (UserStatusOffline None))),
         (35, Raw (UpdateUserStatus 1 (UserStatusOffline None))),
         (60, Raw (UpdateUserStatus 1 UserStatusOnline))] :: nat world))
     = [(0, \<lparr>name = ''User'', status = ''ONLINE'', last_seen = ''--'', duration = ''''\<rparr>)]"
  by (simp add: exec)

text \<open>
  C3, as amended. Take a world in which no task but the one \<open>offline_task\<close> refers to is
  sleeping. An offline event of the tracked user arrives at \<open>t1\<close> and, for
  \<open>OFFLINE_DELAY\<close> seconds, no presence event of the tracked user follows, neither online
  nor offline. Then exactly one snapshot is broadcast after what was broadcast up to
  \<open>t1\<close>: at \<open>t1 + OFFLINE_DELAY\<close>, with status OFFLINE, with that time (and not \<open>t1\<close>)
  as \<open>last_seen\<close>, and no task is left sleeping.
\<close>

theorem confirmed_offline:
  assumes inv: "handle_inv w"
    and mid: "\<forall>ti\<in>set mid. fst ti < t1 + OFFLINE_DELAY \<and> \<not> presence_event user_id (snd ti)"
  shows "broadcasts (advance net strftime (t1 + OFFLINE_DELAY)
                       (run net strftime (Some user_id)
                          ((t1, Raw (UpdateUserStatus user_id (UserStatusOffline was_online))) # mid) w))
           = broadcasts (advance net strftime t1 w) @
               [(t1 + OFFLINE_DELAY,
                 (state (advance net strftime t1 w))
                   \<lparr>status := ''OFFLINE'', last_seen := strftime (t1 + OFFLINE_DELAY),
                    duration := ''''\<rparr>)] \<and>
         pending (tasks (advance net strftime (t1 + OFFLINE_DELAY)
                       (run net strftime (Some user_id)
                          ((t1, Raw (UpdateUserStatus user_id (UserStatusOffline was_online))) # mid) w)))
           = [] \<and>
         t1 + OFFLINE_DELAY \<noteq> t1"
proof -
  let ?T = "t1 + OFFLINE_DELAY"
  let ?w0 = "advance net strftime t1 w"
  let ?off = "(t1, Raw (UpdateUserStatus user_id (UserStatusOffline was_online)))"
  let ?w2 = "run net strftime (Some user_id) (?off # mid) w"
  let ?w3 = "advance net strftime ?T ?w2"
  have w2: "state ?w2 = state ?w0" "broadcasts ?w2 = broadcasts ?w0"
    "online_since ?w2 = None"
    "tasks ?w2 = cancelled ?w0 @ [\<lparr>due = t1 + OFFLINE_DELAY, tstate = Pending\<rparr>]"
    "\<forall>k\<in>set (cancelled ?w0). tstate k \<noteq> Pending"
    using offline_then_quiet [OF inv mid, of net strftime was_online] by simp_all
  have old: "filter (is_due ?T) (cancelled ?w0) = []"
    using w2(5) by (simp add: filter_empty_conv is_due_def)
  have due: "filter (is_due ?T) (tasks ?w2) = [\<lparr>due = ?T, tstate = Pending\<rparr>]"
    by (simp add: w2(4) old is_due_def)
  have "broadcasts ?w3 = broadcasts ?w2 @
          [(?T, (state ?w2)\<lparr>status := ''OFFLINE'', last_seen := strftime ?T, duration := ''''\<rparr>)]"
    by (simp add: advance_def due delayed_offline_def w2(3) broadcast_frame)
  moreover have "pending (tasks ?w3) = []"
    using w2(5) by (auto simp: pending_empty_conv advance_frame w2(4) is_due_def)
  ultimately show ?thesis
    by (simp add: w2(1,2) OFFLINE_DELAY_def)
qed

text \<open>
  The user is online at the start; an offline event at 00:00:05, an observer at
  00:00:10, and the delay ends at 00:00:45.
\<close>

theorem confirmed_offline_witness:
  "handle_inv (system (\<lambda>t ws. Ok) clock ''User'' [] 0 1 UserStatusOnline [] :: nat world) \<and>
   (10::nat) < 5 + OFFLINE_DELAY \<and> \<not> presence_event 1 (Connect (8::nat) Ok) \<and>
   broadcasts (advance (\<lambda>t ws. Ok) clock (5 + OFFLINE_DELAY)
     (run (\<lambda>t ws. Ok) clock (Some 1)
        [(5, Raw (UpdateUserStatus 1 (UserStatusOffline None))), (10, Connect 8 Ok)]
        (system (\<lambda>t ws. Ok) clock ''User'' [] 0 1 UserStatusOnline [] :: nat world)))
     = [(0, \<lparr>name = ''User'', status = ''ONLINE'', last_seen = ''--'', duration = ''''\<rparr>),
        (45, \<lparr>name = ''User'', status = ''OFFLINE'', last_seen = ''1970-01-01 00:00:45'',
              duration = ''''\<rparr>)]"
proof -
  let ?w = "system (\<lambda>t ws. Ok) clock ''User'' [] 0 1 UserStatusOnline [] :: nat world"
  have w: "?w = \<lparr>clients = [],
                 state = \<lparr>name = ''User'', status = ''ONLINE'', last_seen = ''--'', duration = ''''\<rparr>,
                 online_since = Some 0, offline_task = None, tasks = [],
                 broadcasts = [(0, \<lparr>name = ''User'', status = ''ONLINE'', last_seen = ''--'',
                                     duration = ''''\<rparr>)],
                 sends = []\<rparr>"
    by (simp add: exec)
  have h1: "handle_inv ?w"
    by (simp add: w handle_inv_def pending_def)
  have h2: "\<forall>ti\<in>set [(10::nat, Connect (8::nat) Ok)].
              fst ti < 5 + OFFLINE_DELAY \<and> \<not> presence_event 1 (snd ti)"
    by (simp add: OFFLINE_DELAY_def)
  have adv: "advance (\<lambda>t ws. Ok) clock 5 ?w = ?w"
    unfolding w by (simp add: advance_def)
  have "clock (5 + OFFLINE_DELAY) = ''1970-01-01 00:00:45''"
    by (simp add: OFFLINE_DELAY_def clock_def two_digits_def)
  with confirmed_offline [OF h1 h2, of "\<lambda>t ws. Ok" clock None] show ?thesis
    using h1 h2 by (simp add: adv) (simp add: w OFFLINE_DELAY_def)
qed

text \<open>
  C10. The user is offline when the worker starts at time 0, so the first snapshot that
  is broadcast has status OFFLINE and that is the status of the world reached. An
  offline event of the tracked user at second 5, followed by nothing for 40 seconds,
  makes the task broadcast a second snapshot with status OFFLINE at second 45, with the
  time stamp of second 45 as \<open>last_seen\<close>. With an observer \<open>ws\<close> that has registered
  at time 0, before the sync, and whose sends succeed, this is what the observer is
  sent: the snapshot of its registration, with status CONNECTING, and then two
  snapshots with status OFFLINE one after the other, the second with the fresh
  \<open>last_seen\<close>; the observer is registered all along.
\<close>

theorem repeated_offline_broadcast:
  "status (state (system net strftime TARGET_NAME [] 0 user_id (UserStatusOffline None) []))
     = ''OFFLINE'' \<and>
   broadcasts (advance net strftime 45
      (system net strftime TARGET_NAME [] 0 user_id (UserStatusOffline None)
         [(5, Raw (UpdateUserStatus user_id (UserStatusOffline was_online)))]))
     = [(0, \<lparr>name = TARGET_NAME, status = ''OFFLINE'', last_seen = ''--'', duration = ''''\<rparr>),
        (45, \<lparr>name = TARGET_NAME, status = ''OFFLINE'', last_seen = strftime 45,
              duration = ''''\<rparr>)] \<and>
   status (state (system (\<lambda>t ws. Ok) strftime TARGET_NAME [(0, Connect ws Ok)] 0 user_id
                    (UserStatusOffline None) []))
     = ''OFFLINE'' \<and>
   clients (system (\<lambda>t ws. Ok) strftime TARGET_NAME [(0, Connect ws Ok)] 0 user_id
              (UserStatusOffline None) [])
     = [ws] \<and>
   sends (advance (\<lambda>t ws. Ok) strftime 45
      (system (\<lambda>t ws. Ok) strftime TARGET_NAME [(0, Connect ws Ok)] 0 user_id
         (UserStatusOffline None)
         [(5, Raw (UpdateUserStatus user_id (UserStatusOffline was_online)))]))
     = [(0, ws, \<lparr>name = TARGET_NAME, status = ''CONNECTING'', last_seen = ''--'',
                  duration = ''''\<rparr>, Ok),
        (0, ws, \<lparr>name = TARGET_NAME, status = ''OFFLINE'', last_seen = ''--'',
                  duration = ''''\<rparr>, Ok),
        (45, ws, \<lparr>name = TARGET_NAME, status = ''OFFLINE'', last_seen = strftime 45,
                   duration = ''''\<rparr>, Ok)] \<and>
   clients (advance (\<lambda>t ws. Ok) strftime 45
      (system (\<lambda>t ws. Ok) strftime TARGET_NAME [(0, Connect ws Ok)] 0 user_id
         (UserStatusOffline None)
         [(5, Raw (UpdateUserStatus user_id (UserStatusOffline was_online)))]))
     = [ws]"
  by (simp add: exec)

section \<open>The task handle\<close>

text \<open>
  C5. Whatever arrives before and after the worker has resolved the user, at most one
  task is sleeping, and it is the one \<open>offline_task\<close> refers to. In such a world the
  handler, on an offline event of the tracked user, first cancels the task
  \<open>offline_task\<close> refers to and then creates the new one, which is then the only
  sleeping task and the one \<open>offline_task\<close> refers to; on an online event of the tracked
  user it cancels that task whatever the status is, and no task is left sleeping.
\<close>

theorem at_most_one_live_handle:
  "length (pending (tasks (system net strftime TARGET_NAME pre t0 user_id user_status post))) \<le> 1 \<and>
   handle_inv (system net strftime TARGET_NAME pre t0 user_id user_status post) \<and>
   (handle_inv w \<longrightarrow>
      pending (cancelled w) = [] \<and>
      tasks (fst (handler net user_id (UpdateUserStatus user_id (UserStatusOffline was_online)) now w))
        = cancelled w @ [\<lparr>due = now + OFFLINE_DELAY, tstate = Pending\<rparr>] \<and>
      pending (tasks (fst (handler net user_id
                             (UpdateUserStatus user_id (UserStatusOffline was_online)) now w)))
        = [length (tasks w)] \<and>
      offline_task (fst (handler net user_id
                           (UpdateUserStatus user_id (UserStatusOffline was_online)) now w))
        = Some (length (tasks w)) \<and>
      tasks (fst (handler net user_id (UpdateUserStatus user_id UserStatusOnline) now w))
        = cancelled w \<and>
      offline_task (fst (handler net user_id (UpdateUserStatus user_id UserStatusOnline) now w))
        = None)"
proof (intro conjI impI)
  show inv: "handle_inv (system net strftime TARGET_NAME pre t0 user_id user_status post)"
    by (rule handle_inv_system)
  then show "length (pending (tasks (system net strftime TARGET_NAME pre t0 user_id user_status post)))
               \<le> 1"
    by (rule handle_inv_at_most_one)
next
  assume "handle_inv w"
  then have np: "\<forall>k\<in>set (cancelled w). tstate k \<noteq> Pending"
    by (rule cancelled_none_pending)
  then show "pending (cancelled w) = []"
    by (simp add: pending_empty_conv)
  have "length (cancelled w) = length (tasks w)"
    by (simp add: cancelled_def split: option.split)
  then show "pending (tasks (fst (handler net user_id
                             (UpdateUserStatus user_id (UserStatusOffline was_online)) now w)))
        = [length (tasks w)]"
    using pending_append_new [OF np] by (simp add: handler_offline)
qed (simp_all add: handler_offline handler_online broadcast_frame)

text \<open>
  The user is online at the start and goes offline at 00:00:05; a second offline event
  at 00:00:10 cancels the task of the first and leaves its own as the only sleeping one.
\<close>

theorem at_most_one_live_handle_witness:
  "handle_inv (system (\<lambda>t ws. Ok) clock ''User'' [] 0 1 UserStatusOnline
                 [(5, Raw (UpdateUserStatus 1 (UserStatusOffline None)))] :: nat world) \<and>
   tasks (fst (handler (\<lambda>t ws. Ok) 1 (UpdateUserStatus 1 (UserStatusOffline None)) 10
                 (system (\<lambda>t ws. Ok) clock ''User'' [] 0 1 UserStatusOnline
                    [(5, Raw (UpdateUserStatus 1 (UserStatusOffline None)))] :: nat world)))
     = [\<lparr>due = 45, tstate = Cancelled\<rparr>, \<lparr>due = 50, tstate = Pending\<rparr>] \<and>
   pending (tasks (fst (handler (\<lambda>t ws. Ok) 1 (UpdateUserStatus 1 (UserStatusOffline None)) 10
                 (system (\<lambda>t ws. Ok) clock ''User'' [] 0 1 UserStatusOnline
                    [(5, Raw (UpdateUserStatus 1 (UserStatusOffline None)))] :: nat world))))
     = [1] \<and>
   tasks (fst (handler (\<lambda>t ws. Ok) 1 (UpdateUserStatus 1 UserStatusOnline) 10
                 (system (\<lambda>t ws. Ok) clock ''User'' [] 0 1 UserStatusOnline
                    [(5, Raw (UpdateUserStatus 1 (UserStatusOffline None)))] :: nat world)))
     = [\<lparr>due = 45, tstate = Cancelled\<rparr>]"
proof -
  let ?w = "system (\<lambda>t ws. Ok) clock ''User'' [] 0 1 UserStatusOnline
              [(5, Raw (UpdateUserStatus 1 (UserStatusOffline None)))] :: nat world"
  have w: "?w = \<lparr>clients = [],
                 state = \<lparr>name = ''User'', status = ''ONLINE'', last_seen = ''--'', duration = ''''\<rparr>,
                 online_since = None, offline_task = Some 0,
                 tasks = [\<lparr>due = 45, tstate = Pending\<rparr>],
                 broadcasts = [(0, \<lparr>name = ''User'', status = ''ONLINE'', last_seen = ''--'',
                                     duration = ''''\<rparr>)],
                 sends = []\<rparr>"
    by (simp add: exec)
  have h: "handle_inv ?w"
    by (simp add: w handle_inv_def pending_def)
  show ?thesis
    using at_most_one_live_handle [of "\<lambda>t ws. Ok" clock "''User''" "[]" 0 1 UserStatusOnline "[]"
        ?w None 10] h
    by (simp add: w exec)
qed

section \<open>The observers\<close>

text \<open>
  C6. When every send that fails raises an \<open>Exception\<close>, as a closed or broken channel
  does, \<open>broadcast\<close> returns without raising; the observers left are those whose send
  did not fail, in their order; the snapshot has been sent once to every observer that
  was registered, and so has reached each one whose send did not fail.
\<close>

theorem broadcast_drops_failing_observers:
  assumes "\<forall>ws\<in>set (clients w). send ws \<noteq> Raises BaseException"
  shows "snd (broadcast send now w) = None \<and>
         clients (fst (broadcast send now w))
           = filter (\<lambda>ws. send ws \<noteq> Raises Exception) (clients w) \<and>
         set (clients (fst (broadcast send now w)))
           = set (clients w) - {ws. send ws = Raises Exception} \<and>
         sends (fst (broadcast send now w))
           = sends w @ map (\<lambda>ws. (now, ws, state w, send ws)) (clients w) \<and>
         (\<forall>ws\<in>set (clients w). send ws = Ok \<longrightarrow>
            (now, ws, state w, Ok) \<in> set (sends (fst (broadcast send now w))))"
proof -
  let ?w1 = "w\<lparr>broadcasts := broadcasts w @ [(now, state w)]\<rparr>"
  have r: "snd (broadcast send now w) = None"
    "clients (fst (broadcast send now w))
       = filter (\<lambda>x. \<not> (x \<in> set (clients w) \<and> send x = Raises Exception)) (clients w)"
    "sends (fst (broadcast send now w))
       = sends w @ map (\<lambda>ws. (now, ws, state w, send ws)) (clients w)"
    using broadcast_loop_result [of "clients w" send now ?w1] assms
    by (simp_all add: broadcast_def)
  have c: "clients (fst (broadcast send now w))
             = filter (\<lambda>ws. send ws \<noteq> Raises Exception) (clients w)"
    unfolding r(2) by (rule filter_cong) auto
  have "(now, ws, state w, Ok) \<in> set (sends (fst (broadcast send now w)))"
    if "ws \<in> set (clients w)" and "send ws = Ok" for ws
    using that unfolding r(3) by force
  then show ?thesis
    using r(1,3) c by auto
qed

text \<open>
  Three observers where the channel of observer 8 is broken: 9 and 7 receive the
  snapshot and stay, 8 is discarded.
\<close>

theorem broadcast_drops_failing_observers_witness:
  "(if (9::nat) = 8 then Raises Exception else Ok) \<noteq> Raises BaseException \<and>
   (if (8::nat) = 8 then Raises Exception else Ok) \<noteq> Raises BaseException \<and>
   (if (7::nat) = 8 then Raises Exception else Ok) \<noteq> Raises BaseException \<and>
   clients (system (\<lambda>t ws. Ok) clock ''User''
              [(0, Connect 7 Ok), (0, Connect 8 Ok), (0, Connect 9 Ok)]
              0 1 UserStatusOnline [] :: nat world) = [9, 8, 7] \<and>
   clients (fst (broadcast (\<lambda>ws. if ws = 8 then Raises Exception else Ok) 50
                   (system (\<lambda>t ws. Ok) clock ''User''
                      [(0, Connect 7 Ok), (0, Connect 8 Ok), (0, Connect 9 Ok)]
                      0 1 UserStatusOnline [] :: nat world))) = [9, 7] \<and>
   snd (broadcast (\<lambda>ws. if ws = 8 then Raises Exception else Ok) 50
          (system (\<lambda>t ws. Ok) clock ''User''
             [(0, Connect 7 Ok), (0, Connect 8 Ok), (0, Connect 9 Ok)]
             0 1 UserStatusOnline [] :: nat world)) = None"
proof -
  let ?w = "system (\<lambda>t ws. Ok) clock ''User''
              [(0, Connect 7 Ok), (0, Connect 8 Ok), (0, Connect 9 Ok)]
              0 1 UserStatusOnline [] :: nat world"
  let ?send = "\<lambda>ws::nat. if ws = 8 then Raises Exception else Ok"
  have cs: "clients ?w = [9, 8, 7]"
    by (simp add: exec)
  have h: "\<forall>ws\<in>set (clients ?w). ?send ws \<noteq> Raises BaseException"
    by (simp add: cs)
  from broadcast_drops_failing_observers [OF h, of 50] show ?thesis
    using h by (simp add: cs)
qed

text \<open>
  C7. When \<open>accept\<close> returns, \<open>websocket_endpoint\<close> adds the websocket to the observers
  and makes one send to it, of the snapshot as it is in the world at that moment, and
  changes nothing else. As a step at time \<open>t\<close> of the event loop: the send carries the
  snapshot that the world has at \<open>t\<close>, whether or not the handler is registered yet and
  whatever arrives later.
\<close>

theorem registration_sends_snapshot:
  "clients (fst (websocket_endpoint send Ok now ws w)) = List.insert ws (clients w) \<and>
   ws \<in> set (clients (fst (websocket_endpoint send Ok now ws w))) \<and>
   sends (fst (websocket_endpoint send Ok now ws w)) = sends w @ [(now, ws, state w, send ws)] \<and>
   core (fst (websocket_endpoint send Ok now ws w)) = core w \<and>
   sends (step net strftime registered (t, Connect ws Ok) w)
     = sends (advance net strftime t w) @ [(t, ws, state (advance net strftime t w), net t ws)]"
  by (simp add: websocket_endpoint_core)
     (simp add: websocket_endpoint_def step_def Let_def split: outcome.split)

section \<open>The status\<close>

text \<open>
  C8. Until the worker has resolved the user the status is CONNECTING, whatever arrives.
  From the initial sync on it is ONLINE or OFFLINE after every input, whatever arrives:
  it never is CONNECTING again, and it never is a fourth value.
\<close>

theorem status_values:
  fixes net :: "time \<Rightarrow> 'o \<Rightarrow> outcome"
  shows "status (state (run net strftime None pre (init TARGET_NAME))) = ''CONNECTING'' \<and>
         status (state (system net strftime TARGET_NAME pre t0 user_id user_status post))
           \<in> {''ONLINE'', ''OFFLINE''}"
proof
  have "core (run net strftime None pre (init TARGET_NAME))
          = core (init TARGET_NAME :: 'o world)"
    by (rule unregistered_run) (simp add: init_def)
  then show "status (state (run net strftime None pre (init TARGET_NAME))) = ''CONNECTING''"
    by (simp add: core_def init_def)
  have "decided (system net strftime TARGET_NAME pre t0 user_id user_status post)"
    by (simp add: system_def Let_def case_prod_beta decided_run decided_telegram_worker)
  then show "status (state (system net strftime TARGET_NAME pre t0 user_id user_status post))
               \<in> {''ONLINE'', ''OFFLINE''}"
    by (simp add: decided_def)
qed

end
